theory Spec2Isabelle
  imports Main "HOL-Library.Sublist" "HOL-Library.Multiset"
begin

section \<open>Bytes, strings and run-time failures\<close>

text \<open>
  A Go \<open>string\<close> is a sequence of bytes; it is modelled as a \<open>char list\<close> (HOL
  characters are 8-bit).  Every run-time panic of the source is a value of \<open>error\<close>.
\<close>

datatype error =
    IndexOutOfRange   \<comment> \<open>\<open>line[i]\<close> with \<open>i\<close> outside \<open>0 .. len(line)-1\<close>\<close>
  | SliceOutOfRange   \<comment> \<open>\<open>minLine[:len(minLine)-1]\<close> on an empty slice\<close>
  | RandomFailure     \<comment> \<open>\<open>uuid.NewRandom\<close> returned an error, \<open>panicOnErr\<close> panics\<close>

definition CHARComment :: char where "CHARComment = CHR 0x23"  \<comment> \<open>35, the hash sign\<close>
definition ESCChar1 :: char where "ESCChar1 = CHR 0x5C"        \<comment> \<open>92, backslash\<close>
definition ESCChar2 :: char where "ESCChar2 = CHR 0x60"        \<comment> \<open>96, backtick\<close>
definition LT :: char where "LT = CHR 0x3C"                    \<comment> \<open>60\<close>
definition GT :: char where "GT = CHR 0x3E"                    \<comment> \<open>62\<close>

section \<open>The comment stripper\<close>

text \<open>
  The \<open>for\<close> loop of \<open>stripComments\<close>, with its loop variable \<open>i\<close>, the flag \<open>multi\<close>
  and the output buffer \<open>minLine\<close>.  Every index expression of the source is guarded
  here by the bounds check the Go run time performs.  The test \<open>len(line) >= i\<close> of the
  source is kept as written.
\<close>

function stripLoop :: "string \<Rightarrow> nat \<Rightarrow> bool \<Rightarrow> string \<Rightarrow> error + (string \<times> bool)" where
  "stripLoop line i multi minLine =
    (if \<not> i < length line then Inr (minLine, multi)
     else if multi then
       (if line ! i = CHARComment then
          (if length line \<ge> i then
             (if \<not> i + 1 < length line then Inl IndexOutOfRange
              else if line ! (i + 1) = GT then stripLoop line (i + 2) False minLine
              else stripLoop line (i + 1) multi minLine)
           else stripLoop line (i + 1) multi minLine)
        else stripLoop line (i + 1) multi minLine)
     else
       (if line ! i = CHARComment then
          (if length line \<ge> i then
             (if i = 0 then Inl IndexOutOfRange
              else if line ! (i - 1) = ESCChar1 \<or> line ! (i - 1) = ESCChar2
                then stripLoop line (i + 1) multi (minLine @ [line ! i])
              else if line ! (i - 1) = LT
                then (if minLine = [] then Inl SliceOutOfRange
                      else stripLoop line (i + 1) True (butlast minLine))
              else Inr (minLine, multi))
           else Inr (minLine, multi))
        else stripLoop line (i + 1) multi (minLine @ [line ! i])))"
  by pat_completeness auto
termination
  by (relation "measure (\<lambda>(line, i, multi, minLine). length line - i)") auto

declare stripLoop.simps [simp del]

definition stripComments :: "string \<Rightarrow> bool \<Rightarrow> error + (string \<times> bool)" where
  "stripComments line multi =
    (if length line \<le> 0 then Inr ([], multi)
     else if line ! 0 = CHARComment then Inr ([], multi)
     else stripLoop line 0 multi [])"

text \<open>\<open>stripAllComments\<close>: the lines are rewritten in place, \<open>multi\<close> is carried along.\<close>

fun stripAllLoop :: "string list \<Rightarrow> bool \<Rightarrow> error + string list" where
  "stripAllLoop [] multi = Inr []"
| "stripAllLoop (l # ls) multi =
    (case stripComments l multi of
       Inl e \<Rightarrow> Inl e
     | Inr (l', multi') \<Rightarrow>
         (case stripAllLoop ls multi' of Inl e \<Rightarrow> Inl e | Inr ls' \<Rightarrow> Inr (l' # ls')))"

definition stripAllComments :: "string list \<Rightarrow> error + string list" where
  "stripAllComments lines = stripAllLoop lines False"


section \<open>Library functions of the Go run time used by the renamer\<close>

text \<open>
  \<open>strings.ToUpper\<close> on the ASCII range: the letters \<open>a .. z\<close> (97 .. 122) move down by
  32, every other byte is kept.  The input is taken to be ASCII text, as the
  specification's external-interface section assumes.
\<close>

definition toUpperByte :: "char \<Rightarrow> char" where
  "toUpperByte c =
    (let n = (of_char c :: nat) in if 97 \<le> n \<and> n \<le> 122 then char_of (n - 32) else c)"

definition ToUpper :: "string \<Rightarrow> string" where
  "ToUpper s = map toUpperByte s"

text \<open>
  \<open>strings.Replace(s, old, new, -1)\<close>: every non-overlapping occurrence of \<open>old\<close>,
  found from left to right, is replaced by \<open>new\<close>; the replaced text is not scanned
  again.  For an empty \<open>old\<close> Go inserts \<open>new\<close> in front of every character and at the end.
\<close>

function Replace :: "string \<Rightarrow> string \<Rightarrow> string \<Rightarrow> string" where
  "Replace [] old new = (if old = [] then new else [])"
| "Replace (c # cs) old new =
    (if old = [] then new @ c # Replace cs old new
     else if prefix old (c # cs) then new @ Replace (drop (length old) (c # cs)) old new
     else c # Replace cs old new)"
  by pat_completeness auto
termination
  by (relation "measure (\<lambda>(s, old, new). length s)") auto

text \<open>
  The pattern \<open>[`]?\$[A-Z0-9a-z_]*\<close> of \<open>getVariables\<close>, and
  \<open>FindAllStringSubmatch(line, -1)\<close> for it: the successive leftmost matches, each one
  greedy.  The pattern has no group, so every match contributes exactly one string.
\<close>

definition isIdChar :: "char \<Rightarrow> bool" where
  "isIdChar c =
    (let n = (of_char c :: nat) in
       (65 \<le> n \<and> n \<le> 90) \<or> (48 \<le> n \<and> n \<le> 57) \<or> (97 \<le> n \<and> n \<le> 122) \<or> n = 95)"

function psVarReg :: "string \<Rightarrow> string list" where
  "psVarReg [] = []"
| "psVarReg (c # cs) =
    (if c = CHR 0x60 \<and> cs \<noteq> [] \<and> hd cs = CHR ''$''
       then (c # CHR ''$'' # takeWhile isIdChar (tl cs)) # psVarReg (dropWhile isIdChar (tl cs))
     else if c = CHR ''$''
       then (c # takeWhile isIdChar cs) # psVarReg (dropWhile isIdChar cs)
     else psVarReg cs)"
  by pat_completeness auto
termination
proof (relation "measure length")
  fix c :: char and cs :: string
  have "length (dropWhile isIdChar (tl cs)) \<le> length (tl cs)"
    by (rule length_dropWhile_le)
  then show "(dropWhile isIdChar (tl cs), c # cs) \<in> measure length"
    by simp
  have "length (dropWhile isIdChar cs) \<le> length cs"
    by (rule length_dropWhile_le)
  then show "(dropWhile isIdChar cs, c # cs) \<in> measure length"
    by simp
qed auto

text \<open>\<open>strconv.Itoa\<close>: the decimal digits of an integer, with a sign when negative.\<close>

fun digits :: "nat \<Rightarrow> string" where
  "digits n = (if n < 10 then [char_of (48 + n)] else digits (n div 10) @ [char_of (48 + n mod 10)])"

declare digits.simps [simp del]

definition Itoa :: "int \<Rightarrow> string" where
  "Itoa n = (if n < 0 then CHR ''-'' # digits (nat (- n)) else digits (nat n))"

section \<open>Variables\<close>

record PSVariable =
  OriginalName :: string
  UniqueName :: string
  ShortName :: string
  Count :: nat
  Reserved :: bool

text \<open>
  What the renamer takes from outside the repository's functions:
  \<^item> \<open>reservedPSVariables\<close>, the table of reserved names (its declaration is not among
    the sources, so it is a parameter);
  \<^item> \<open>mapRange\<close>, the order in which \<open>range\<close> visits the entries of a Go map (Go leaves
    it unspecified), applied to the entries in order of first insertion;
  \<^item> \<open>sortSort\<close>, the library's \<open>sort.Sort\<close> for a given \<open>Less\<close> (not stable, so the
    order of ties is the library's);
  \<^item> \<open>uuidNewRandom\<close>, the result of the \<open>k\<close>-th call of \<open>uuid.NewRandom\<close> in the run,
    rendered by \<open>String()\<close>; \<open>None\<close> is the error return.
\<close>

record env =
  reservedPSVariables :: "string set"
  mapRange :: "(string \<times> nat) list \<Rightarrow> (string \<times> nat) list"
  sortSort :: "(PSVariable \<Rightarrow> PSVariable \<Rightarrow> bool) \<Rightarrow> PSVariable list \<Rightarrow> PSVariable list"
  uuidNewRandom :: "nat \<Rightarrow> string option"

definition varShortNames :: "char list" where
  "varShortNames = ''ABCDEFGHIJKLMNOPQRSTUVWXYZabcdefghijklmnopqrstuvwxy''"

text \<open>\<open>psVarMap[varName]++\<close> on a map kept as an association list in insertion order.\<close>

fun incr :: "string \<Rightarrow> (string \<times> nat) list \<Rightarrow> (string \<times> nat) list" where
  "incr k [] = [(k, 1)]"
| "incr k ((k', v) # m) = (if k = k' then (k', v + 1) # m else (k', v) # incr k m)"

definition countVariables :: "string list \<Rightarrow> (string \<times> nat) list" where
  "countVariables lines =
    foldl (\<lambda>m line. foldl (\<lambda>m r. incr (ToUpper r) m) m (psVarReg line)) [] lines"

text \<open>The body of the second loop of \<open>getVariables\<close>; \<open>k[0]\<close> panics on an empty key.\<close>

definition mkVariable :: "env \<Rightarrow> string \<times> nat \<Rightarrow> error + PSVariable" where
  "mkVariable e kv =
    (case kv of (k, v) \<Rightarrow>
      (let p = \<lparr>OriginalName = k, UniqueName = [], ShortName = [], Count = v, Reserved = False\<rparr>;
           p = (if k \<in> reservedPSVariables e
                then p\<lparr>Reserved := True, ShortName := OriginalName p\<rparr> else p)
       in case k of
            [] \<Rightarrow> Inl IndexOutOfRange
          | c # _ \<Rightarrow>
              Inr (if [c] = [CHR 0x60]
                   then p\<lparr>Reserved := True, ShortName := OriginalName p\<rparr> else p)))"

fun mapM :: "('a \<Rightarrow> error + 'b) \<Rightarrow> 'a list \<Rightarrow> error + 'b list" where
  "mapM f [] = Inr []"
| "mapM f (x # xs) =
    (case f x of
       Inl e \<Rightarrow> Inl e
     | Inr y \<Rightarrow> (case mapM f xs of Inl e \<Rightarrow> Inl e | Inr ys \<Rightarrow> Inr (y # ys)))"

definition getVariables :: "env \<Rightarrow> string list \<Rightarrow> error + PSVariable list" where
  "getVariables e lines = mapM (mkVariable e) (mapRange e (countVariables lines))"

definition lessCount :: "PSVariable \<Rightarrow> PSVariable \<Rightarrow> bool" where
  "lessCount a b = (Count a > Count b)"

definition lessNameMod :: "PSVariable \<Rightarrow> PSVariable \<Rightarrow> bool" where
  "lessNameMod a b = (length (OriginalName a) > length (OriginalName b))"

definition Sort :: "env \<Rightarrow> PSVariable list \<Rightarrow> PSVariable list" where
  "Sort e p = sortSort e lessCount p"

fun assignLoop :: "env \<Rightarrow> nat \<Rightarrow> PSVariable list \<Rightarrow> error + PSVariable list" where
  "assignLoop e i [] = Inr []"
| "assignLoop e i (v # vs) =
    (case uuidNewRandom e i of
       None \<Rightarrow> Inl RandomFailure
     | Some ident \<Rightarrow>
         (case assignLoop e (i + 1) vs of
            Inl err \<Rightarrow> Inl err
          | Inr vs' \<Rightarrow> Inr (v\<lparr>UniqueName := ''$~~'' @ ToUpper ident\<rparr> # vs')))"

definition assignUniqueRandomNames :: "env \<Rightarrow> PSVariable list \<Rightarrow> error + PSVariable list" where
  "assignUniqueRandomNames e p =
    (case assignLoop e 0 p of
       Inl err \<Rightarrow> Inl err
     | Inr p' \<Rightarrow> Inr (sortSort e lessNameMod p'))"

text \<open>
  The loop of \<open>generateShortNames\<close> with its two counters \<open>count\<close> (here \<open>cnt\<close>) and
  \<open>nameIter\<close>, both Go \<open>int\<close>s.  The index
  \<open>nameIter - 51 * count\<close> into \<open>varShortNames\<close> is bounds-checked.  \<open>nameIter + 1\<close> is
  positive, so Go's remainder is \<open>mod\<close>.
\<close>

fun generateLoop :: "int \<Rightarrow> int \<Rightarrow> PSVariable list \<Rightarrow> error + PSVariable list" where
  "generateLoop cnt nameIter [] = Inr []"
| "generateLoop cnt nameIter (v # vs) =
    (if Reserved v then
       (case generateLoop cnt nameIter vs of
          Inl err \<Rightarrow> Inl err | Inr vs' \<Rightarrow> Inr (v # vs'))
     else
       (let idx = nameIter - 51 * cnt in
        if idx < 0 \<or> idx \<ge> int (length varShortNames) then Inl IndexOutOfRange
        else
          (let s = ''$'' @ [varShortNames ! nat idx];
               s = (if cnt > 0 then s @ Itoa (cnt - 1) else s);
               cnt' = (if (nameIter + 1) mod 51 = 0 then cnt + 1 else cnt)
           in case generateLoop cnt' (nameIter + 1) vs of
                Inl err \<Rightarrow> Inl err
              | Inr vs' \<Rightarrow> Inr (v\<lparr>ShortName := s\<rparr> # vs'))))"

definition generateShortNames :: "PSVariable list \<Rightarrow> error + PSVariable list" where
  "generateShortNames p = generateLoop 0 0 p"

text \<open>
  The two substitution passes.  \<open>replaceVariablesWithUnique\<close> sorts \<open>p\<close> in place, so
  the sorted slice is returned with the lines.
\<close>

definition replaceVariablesWithUnique ::
    "env \<Rightarrow> PSVariable list \<Rightarrow> string list \<Rightarrow> PSVariable list \<times> string list" where
  "replaceVariablesWithUnique e p lines =
    (let p' = sortSort e lessNameMod p
     in (p', map (\<lambda>line. foldl (\<lambda>l v. Replace l (OriginalName v) (UniqueName v))
                              (ToUpper line) p') lines))"

definition replaceUniqueWithShort :: "PSVariable list \<Rightarrow> string list \<Rightarrow> string list" where
  "replaceUniqueWithShort p lines =
    map (\<lambda>line. foldl (\<lambda>l v. Replace l (UniqueName v) (ShortName v)) line p) lines"

definition shortenVariables ::
    "env \<Rightarrow> PSVariable list \<Rightarrow> string list \<Rightarrow> error + (PSVariable list \<times> string list)" where
  "shortenVariables e p lines =
    (let p1 = Sort e p in
     case assignUniqueRandomNames e p1 of
       Inl err \<Rightarrow> Inl err
     | Inr p2 \<Rightarrow>
        (case generateShortNames p2 of
           Inl err \<Rightarrow> Inl err
         | Inr p3 \<Rightarrow>
            (case replaceVariablesWithUnique e p3 lines of
               (p4, lines1) \<Rightarrow> Inr (p4, replaceUniqueWithShort p4 lines1))))"

definition shortenAllVariableNames ::
    "env \<Rightarrow> string list \<Rightarrow> error + (PSVariable list \<times> string list)" where
  "shortenAllVariableNames e lines =
    (case getVariables e lines of
       Inl err \<Rightarrow> Inl err
     | Inr psVars \<Rightarrow> shortenVariables e psVars lines)"


section \<open>The spacing compactor\<close>

text \<open>
  The substitutions of \<open>removeExtraSpaces\<close>, one row for each call of
  \<open>strings.Replace\<close>, in the order of the source.  The call for \<open>" - "\<close> is commented
  out in the source and has no row.
\<close>

definition spaceTable :: "(string \<times> string) list" where
  "spaceTable =
    [('' ='', ''=''), (''= '', ''=''),
     ('' +'', ''+''), (''+ '', ''+''),
     (''- '', ''-''),
     ('' *'', ''*''), (''* '', ''*''),
     ('' -EQ'', ''-EQ''), (''-EQ '', ''-EQ''),
     ('' -GT'', ''-GT''), (''-GT '', ''-GT''),
     ('' -LT'', ''-LT''), (''-LT '', ''-LT''),
     ('' -NE'', ''-NE''), (''-NE '', ''-NE''),
     ('' -LE'', ''-LE''), (''-LE '', ''-LE''),
     ('' -GE'', ''-GE''), (''-GE '', ''-GE''),
     ('' /'', ''/''), (''/ '', ''/''),
     (''( '', ''(''), ('' ('', ''(''), ('' )'', '')''), ('') '', '')''),
     (''[ '', ''[''), ('' ['', ''[''), ('' ]'', '']''), (''] '', '']''),
     (''{ '', ''{''), ('' {'', ''{''), ('' }'', ''}''), (''} '', ''}''),
     (''; '', '';''), ('' ;'', '';'')]"

definition removeExtraSpacesLine :: "string \<Rightarrow> string" where
  "removeExtraSpacesLine line = foldl (\<lambda>l (old, new). Replace l old new) line spaceTable"

definition removeExtraSpaces :: "string list \<Rightarrow> string list" where
  "removeExtraSpaces lines = map removeExtraSpacesLine lines"

section \<open>The line joiner\<close>

text \<open>
  \<open>strings.TrimSpace\<close> removes leading and trailing white space as Unicode defines it
  (\<open>unicode.IsSpace\<close>).  On the bytes of a Go string these are the six ASCII bytes tab,
  line feed, vertical tab, form feed, carriage return and space, and the UTF-8
  encodings of U+0085, U+00A0, U+1680, U+2000 to U+200A, U+2028, U+2029, U+202F,
  U+205F and U+3000.  A leading rune is decoded forwards and a trailing rune
  backwards; since each of these encodings is well formed, the string starts (ends)
  with a white-space rune exactly when one of the byte sequences below is a prefix
  (suffix) of it.  \<open>strings.TrimSuffix\<close> removes one given suffix when it is there.
\<close>

definition spaceRunes :: "string list" where
  "spaceRunes =
    [[CHR 0x09], [CHR 0x0A], [CHR 0x0B], [CHR 0x0C], [CHR 0x0D], [CHR 0x20],
     [CHR 0xC2, CHR 0x85], [CHR 0xC2, CHR 0xA0],
     [CHR 0xE1, CHR 0x9A, CHR 0x80],
     [CHR 0xE2, CHR 0x80, CHR 0x80], [CHR 0xE2, CHR 0x80, CHR 0x81],
     [CHR 0xE2, CHR 0x80, CHR 0x82], [CHR 0xE2, CHR 0x80, CHR 0x83],
     [CHR 0xE2, CHR 0x80, CHR 0x84], [CHR 0xE2, CHR 0x80, CHR 0x85],
     [CHR 0xE2, CHR 0x80, CHR 0x86], [CHR 0xE2, CHR 0x80, CHR 0x87],
     [CHR 0xE2, CHR 0x80, CHR 0x88], [CHR 0xE2, CHR 0x80, CHR 0x89],
     [CHR 0xE2, CHR 0x80, CHR 0x8A],
     [CHR 0xE2, CHR 0x80, CHR 0xA8], [CHR 0xE2, CHR 0x80, CHR 0xA9],
     [CHR 0xE2, CHR 0x80, CHR 0xAF],
     [CHR 0xE2, CHR 0x81, CHR 0x9F],
     [CHR 0xE3, CHR 0x80, CHR 0x80]]"

text \<open>Removing, as long as one is there, a leading sequence out of a given list.\<close>

function trimPrefixes :: "string list \<Rightarrow> string \<Rightarrow> string" where
  "trimPrefixes us s =
    (case find (\<lambda>u. u \<noteq> [] \<and> prefix u s) us of
       None \<Rightarrow> s
     | Some u \<Rightarrow> trimPrefixes us (drop (length u) s))"
  by pat_completeness auto
termination
proof (relation "measure (\<lambda>(us, s). length s)")
  fix us :: "string list" and s u :: string
  assume "find (\<lambda>u. u \<noteq> [] \<and> prefix u s) us = Some u"
  then have "u \<noteq> []" and "prefix u s"
    by (auto simp: find_Some_iff)
  then have "length (drop (length u) s) < length s"
    by (auto simp: prefix_def)
  then show "((us, drop (length u) s), (us, s)) \<in> measure (\<lambda>(us, s). length s)"
    by simp
qed simp

declare trimPrefixes.simps [simp del]

definition TrimSpace :: "string \<Rightarrow> string" where
  "TrimSpace s = rev (trimPrefixes (map rev spaceRunes) (rev (trimPrefixes spaceRunes s)))"

definition TrimSuffix :: "string \<Rightarrow> string \<Rightarrow> string" where
  "TrimSuffix s suf = (if suffix suf s then take (length s - length suf) s else s)"

text \<open>The trimming at the head of the loop body of \<open>removeAllNewLines\<close>.\<close>

definition trimLine :: "string \<Rightarrow> string" where
  "trimLine line = TrimSuffix (TrimSuffix (TrimSpace line) [CHR 0x0A]) [CHR 0x0D]"

fun removeAllNewLines :: "string list \<Rightarrow> string list" where
  "removeAllNewLines [] = []"
| "removeAllNewLines (line # lines) =
    (let l = trimLine line in
     if l = [] then removeAllNewLines lines
     else
       (let e = drop (length l - 1) l in
        if e = ''}'' \<or> e = ''{'' \<or> e = ''('' \<or> e = '';'' then l # removeAllNewLines lines
        else if e = '']'' then (l @ [CHR 0x0A]) # removeAllNewLines lines
        else if e = ''M'' then
          (if length l \<ge> 5 then
             (if drop (length l - 5) l = ''PARAM'' then l # removeAllNewLines lines
              else l # removeAllNewLines lines)
           else (l @ '';'') # removeAllNewLines lines)
        else (l @ '';'') # removeAllNewLines lines))"

section \<open>The pipeline of \<open>main\<close>\<close>

definition minimize :: "env \<Rightarrow> string list \<Rightarrow> error + string list" where
  "minimize e originalLines =
    (case stripAllComments originalLines of
       Inl err \<Rightarrow> Inl err
     | Inr stripped \<Rightarrow>
        (case shortenAllVariableNames e stripped of
           Inl err \<Rightarrow> Inl err
         | Inr (p, renamed) \<Rightarrow> Inr (removeAllNewLines (removeExtraSpaces renamed))))"

section \<open>A concrete run time\<close>

text \<open>
  One admissible behaviour of the library: map entries visited in insertion order, a
  stable insertion sort (what \<open>sort.Sort\<close> does on short slices), and identifiers
  taken from a given list.
\<close>

fun insertBy :: "('a \<Rightarrow> 'a \<Rightarrow> bool) \<Rightarrow> 'a \<Rightarrow> 'a list \<Rightarrow> 'a list" where
  "insertBy lt x [] = [x]"
| "insertBy lt x (y # ys) = (if lt y x then y # insertBy lt x ys else x # y # ys)"

definition insertionSort :: "('a \<Rightarrow> 'a \<Rightarrow> bool) \<Rightarrow> 'a list \<Rightarrow> 'a list" where
  "insertionSort lt xs = foldr (insertBy lt) xs []"

definition listEnv :: "string set \<Rightarrow> string list \<Rightarrow> env" where
  "listEnv reserved ids =
    \<lparr>reservedPSVariables = reserved, mapRange = (\<lambda>m. m), sortSort = insertionSort,
     uuidNewRandom = (\<lambda>k. if k < length ids then Some (ids ! k) else None)\<rparr>"

definition uuid1 :: string where "uuid1 = ''0b5e2c1a-7d43-4f0e-9a61-3c2f8e5d7b10''"
definition uuid2 :: string where "uuid2 = ''f47ac10b-58cc-4372-a567-0e02b2c3d479''"
definition uuid3 :: string where "uuid3 = ''6ba7b810-9dad-41d1-80b4-00c04fd430c8''"


section \<open>Assumptions on the library and vocabulary of the properties\<close>

text \<open>
  \<open>range\<close> over a map visits every entry exactly once; \<open>sort.Sort\<close> only swaps
  elements, so its result is a permutation of its argument, and for an order given by
  a key (larger keys first) the result is ordered by that key.
\<close>

definition rangeContract :: "env \<Rightarrow> bool" where
  "rangeContract e = (\<forall>m. mset (mapRange e m) = mset m)"

definition sortContract :: "env \<Rightarrow> bool" where
  "sortContract e =
    ((\<forall>lt xs. mset (sortSort e lt xs) = mset xs) \<and>
     (\<forall>(key :: PSVariable \<Rightarrow> nat) xs.
        sorted_wrt (\<lambda>a b. key a \<ge> key b) (sortSort e (\<lambda>a b. key a > key b) xs)))"

text \<open>
  The canonical text of a UUID: 36 characters, lower-case hexadecimal digits and
  hyphens.  Two calls of \<open>uuid.NewRandom\<close> in one run return different values.
\<close>

definition uuidForm :: "string \<Rightarrow> bool" where
  "uuidForm s = (length s = 36 \<and> set s \<subseteq> set ''0123456789abcdef-'')"

definition uuidContract :: "env \<Rightarrow> bool" where
  "uuidContract e =
    ((\<forall>k s. uuidNewRandom e k = Some s \<longrightarrow> uuidForm s) \<and>
     (\<forall>j k s. uuidNewRandom e j = Some s \<and> uuidNewRandom e k = Some s \<longrightarrow> j = k))"

text \<open>
  The allocation sequence of \<open>generateShortNames\<close> in closed form: the \<open>k\<close>-th name
  handed out (counting from 0) is the sigil, the letter \<open>k mod 51\<close> of \<open>varShortNames\<close>
  and, from the second round on, the round number less one.
\<close>

definition allocName :: "nat \<Rightarrow> string" where
  "allocName k =
    (let cnt = int k div 51; s = ''$'' @ [varShortNames ! (k mod 51)]
     in if cnt > 0 then s @ Itoa (cnt - 1) else s)"

text \<open>Reading decimal digits back, and the loop of \<open>generateShortNames\<close> without its
  counters and bounds check, for the proofs.\<close>

definition undigits :: "string \<Rightarrow> nat" where
  "undigits s = foldl (\<lambda>a c. 10 * a + (of_char c - 48)) 0 s"

fun allocate :: "nat \<Rightarrow> PSVariable list \<Rightarrow> PSVariable list" where
  "allocate n [] = []"
| "allocate n (v # vs) =
    (if Reserved v then v # allocate n vs
     else v\<lparr>ShortName := allocName n\<rparr> # allocate (Suc n) vs)"

definition keepsName :: "env \<Rightarrow> PSVariable \<Rightarrow> bool" where
  "keepsName e v =
    (Reserved v \<longrightarrow> ShortName v = OriginalName v \<and>
       (OriginalName v \<in> reservedPSVariables e \<or> hd (OriginalName v) = CHR 0x60))"

section \<open>Properties of the comment stripper\<close>

text \<open>
  C2.  Inside a block comment, a line that contains the comment marker followed by the
  block-close marker should end the comment, also when the close sequence opens the
  line.  The early return for a line whose first character is the comment marker is
  taken in both states: the lines \<open>#>\<close> and \<open>#> code\<close> come back empty with the
  stripper still inside the block comment, whereas the same close sequence one column
  further right ends the comment.
\<close>

theorem stripComments_close_at_line_start:
  "stripComments ''#>'' True = Inr ([], True)
   \<and> stripComments ''#> code'' True = Inr ([], True)
   \<and> stripComments '' #> code'' True = Inr ('' code'', False)"
  by code_simp

text \<open>
  C4.  The comment stripper should return a result for every line and state.  Inside a
  block comment, a line whose last character is the comment marker makes the look-ahead
  \<open>line[i+1]\<close> read past the end of the line: the call panics, and so does the whole
  pass over a script that contains such a line inside a block comment.
\<close>

theorem stripComments_trailing_marker_panics:
  "stripComments ''a#'' True = Inl IndexOutOfRange
   \<and> stripAllComments [''$x = 1 <# note'', ''see issue #'', ''#>''] = Inl IndexOutOfRange"
  by code_simp

section \<open>Properties of the renamer on concrete scripts\<close>

text \<open>
  C1.  The output of the pipeline should not depend on the transient aliases.  On the
  one-line script \<open>$x $\<close> the pattern also matches the bare sigil; its substitution
  rewrites the sigil of the alias already inserted for \<open>$X\<close>, the second pass no longer
  finds that alias, and the identifier drawn for \<open>$X\<close> stays in the output: two runs
  that draw different identifiers give different outputs.
\<close>

theorem minimize_depends_on_alias:
  "minimize (listEnv {} [uuid1, uuid2]) [''$x $'']
     = Inr [''$B~~0B5E2C1A-7D43-4F0E-9A61-3C2F8E5D7B10 $B;'']
   \<and> minimize (listEnv {} [uuid2, uuid1]) [''$x $'']
     = Inr [''$B~~F47AC10B-58CC-4372-A567-0E02B2C3D479 $B;'']"
  by code_simp

text \<open>
  C3.  A variable used more often should get a name earlier in the allocation sequence.
  \<open>assignUniqueRandomNames\<close> sorts the slice by length of the original name after the
  sort by count, so \<open>generateShortNames\<close> walks the variables longest name first: in
  the script \<open>$c $c $ab\<close> the variable \<open>$C\<close> is used twice and gets the second name,
  \<open>$AB\<close> is used once and gets the first.
\<close>

theorem shortNames_follow_name_length:
  "shortenAllVariableNames (listEnv {} [uuid1, uuid2]) [''$c $c $ab'']
     = Inr ([\<lparr>OriginalName = ''$AB'', UniqueName = ''$~~F47AC10B-58CC-4372-A567-0E02B2C3D479'',
               ShortName = ''$A'', Count = 1, Reserved = False\<rparr>,
             \<lparr>OriginalName = ''$C'', UniqueName = ''$~~0B5E2C1A-7D43-4F0E-9A61-3C2F8E5D7B10'',
               ShortName = ''$B'', Count = 2, Reserved = False\<rparr>],
            [''$B $B $A''])"
  by code_simp

text \<open>
  C5.  Every occurrence of a variable should become one occurrence of its short name.
  In the script below \<open>$COUNT\<close> and \<open>$COUNTTOTAL\<close> are given the short names \<open>$B\<close>
  and \<open>$A\<close>; the bare sigil at the end of the line is a third variable, and its
  substitution destroys the aliases of the other two, so that neither \<open>$A\<close> nor \<open>$B\<close>
  occurs in the renamed line.
\<close>

theorem bare_sigil_breaks_occurrences:
  "shortenAllVariableNames (listEnv {} [uuid1, uuid2, uuid3]) [''$count + $countTotal $'']
     = Inr ([\<lparr>OriginalName = ''$COUNTTOTAL'', UniqueName = ''$~~F47AC10B-58CC-4372-A567-0E02B2C3D479'',
               ShortName = ''$A'', Count = 1, Reserved = False\<rparr>,
             \<lparr>OriginalName = ''$COUNT'', UniqueName = ''$~~0B5E2C1A-7D43-4F0E-9A61-3C2F8E5D7B10'',
               ShortName = ''$B'', Count = 1, Reserved = False\<rparr>,
             \<lparr>OriginalName = ''$'', UniqueName = ''$~~6BA7B810-9DAD-41D1-80B4-00C04FD430C8'',
               ShortName = ''$C'', Count = 1, Reserved = False\<rparr>],
            [''$C~~0B5E2C1A-7D43-4F0E-9A61-3C2F8E5D7B10 + $C~~F47AC10B-58CC-4372-A567-0E02B2C3D479 $C''])"
  by code_simp

section \<open>Properties of short-name allocation and of the aliases\<close>

subsection \<open>Decimal digits\<close>

lemma undigits_digits: "undigits (digits n) = n"
proof (induction n rule: digits.induct)
  case (1 n)
  show ?case
  proof (cases "n < 10")
    case True
    then show ?thesis
      by (subst digits.simps) (simp add: undigits_def)
  next
    case False
    have m: "n mod 10 < 10" by simp
    from False 1 have "undigits (digits (n div 10)) = n div 10" by simp
    then show ?thesis
      using False m by (subst digits.simps) (simp add: undigits_def)
  qed
qed

lemma digits_inj: "digits m = digits n \<Longrightarrow> m = n"
  by (metis undigits_digits)

lemma digits_not_Nil: "digits n \<noteq> []"
  by (subst digits.simps) simp

lemma distinct_varShortNames: "distinct varShortNames"
  by (simp add: varShortNames_def)

lemma length_varShortNames: "length varShortNames = 51"
  by (simp add: varShortNames_def)

lemma allocName_alt:
  "allocName k =
     CHR ''$'' # varShortNames ! (k mod 51) # (if k div 51 > 0 then digits (k div 51 - 1) else [])"
proof -
  have q: "int k div 51 = int (k div 51)"
    by (simp add: zdiv_int)
  have r: "0 < k div 51 \<Longrightarrow> nat (int (k div 51) - 1) = k div 51 - 1"
    by simp
  have n: "0 < k div 51 \<Longrightarrow> \<not> int (k div 51) - 1 < 0"
    by simp
  show ?thesis
    unfolding allocName_def Let_def Itoa_def q
    using r n by (simp del: of_nat_div)
qed

lemma allocName_inj: "allocName j = allocName k \<Longrightarrow> j = k"
proof -
  assume eq: "allocName j = allocName k"
  have lj: "j mod 51 < length varShortNames" and lk: "k mod 51 < length varShortNames"
    by (simp_all add: length_varShortNames)
  from eq have "varShortNames ! (j mod 51) = varShortNames ! (k mod 51)"
    by (simp add: allocName_alt)
  then have m: "j mod 51 = k mod 51"
    using lj lk distinct_varShortNames by (simp add: nth_eq_iff_index_eq)
  from eq have t: "(if j div 51 > 0 then digits (j div 51 - 1) else []) =
      (if k div 51 > 0 then digits (k div 51 - 1) else [])"
    by (simp add: allocName_alt)
  have d: "j div 51 = k div 51"
  proof (cases "j div 51 > 0")
    case True
    note jpos = True
    show ?thesis
    proof (cases "k div 51 > 0")
      case True
      with jpos t have "digits (j div 51 - 1) = digits (k div 51 - 1)" by simp
      then have "j div 51 - 1 = k div 51 - 1" by (rule digits_inj)
      with True jpos show ?thesis by simp
    next
      case False
      with jpos t show ?thesis using digits_not_Nil by simp
    qed
  next
    case False
    note jz = False
    show ?thesis
    proof (cases "k div 51 > 0")
      case True
      with jz t show ?thesis using digits_not_Nil [of "k div 51 - 1"] by simp
    next
      case False
      with jz show ?thesis by simp
    qed
  qed
  from m d show ?thesis
    by (metis div_mult_mod_eq)
qed

lemma next_round:
  "(if (int n + 1) mod 51 = 0 then int (n div 51) + 1 else int (n div 51)) = int (Suc n div 51)"
proof -
  have e1: "int n + 1 = int (Suc n)" by simp
  have e2: "int (Suc n) mod 51 = int (Suc n mod 51)"
    by (simp add: zmod_int)
  have e3: "(int (Suc n mod 51) = 0) = (Suc n mod 51 = 0)"
    by (rule of_nat_eq_0_iff)
  have e4: "Suc n div 51 = (if Suc n mod 51 = 0 then Suc (n div 51) else n div 51)"
    by (rule div_Suc)
  show ?thesis
    unfolding e1 e2 e3 by (subst e4) simp
qed

lemma generateLoop_allocate:
  "generateLoop (int (n div 51)) (int n) p = Inr (allocate n p)"
proof (induction p arbitrary: n)
  case Nil
  show ?case by simp
next
  case (Cons v vs)
  show ?case
  proof (cases "Reserved v")
    case True
    then show ?thesis using Cons [of n] by simp
  next
    case False
    have idx: "int n - 51 * int (n div 51) = int (n mod 51)"
      by (simp add: zmod_int zdiv_int) presburger
    have lt: "n mod 51 < 51" by simp
    have nx: "(if (int n + 1) mod 51 = 0 then int (n div 51) + 1 else int (n div 51))
        = int (Suc n div 51)"
      by (rule next_round)
    have pos: "(int (n div 51) > 0) = (int n div 51 > 0)"
      by (simp add: zdiv_int)
    have nm: "allocName n =
        (let s = ''$'' @ [varShortNames ! (n mod 51)]
         in if int (n div 51) > 0 then s @ Itoa (int (n div 51) - 1) else s)"
      by (simp add: allocName_def Let_def zdiv_int)
    have ih: "generateLoop (int (Suc n div 51)) (int n + 1) vs = Inr (allocate (Suc n) vs)"
      using Cons [of "Suc n"] by (simp add: add.commute)
    show ?thesis
      using False lt
      by (simp add: Let_def idx nx nm ih length_varShortNames del: of_nat_div)
  qed
qed

lemma generateShortNames_allocate: "generateShortNames p = Inr (allocate 0 p)"
  using generateLoop_allocate [of 0 p] by (simp add: generateShortNames_def)

lemma allocate_fields:
  "map OriginalName (allocate n p) = map OriginalName p"
  "map UniqueName (allocate n p) = map UniqueName p"
  "map Reserved (allocate n p) = map Reserved p"
  "map Count (allocate n p) = map Count p"
  by (induction p arbitrary: n) auto

lemma allocate_reserved:
  "map ShortName (filter Reserved (allocate n p)) = map ShortName (filter Reserved p)"
  by (induction p arbitrary: n) auto

lemma allocate_free:
  "map ShortName (filter (\<lambda>v. \<not> Reserved v) (allocate n p))
     = map allocName [n ..< n + length (filter (\<lambda>v. \<not> Reserved v) p)]"
proof (induction p arbitrary: n)
  case Nil
  show ?case by simp
next
  case (Cons v vs)
  show ?case
  proof (cases "Reserved v")
    case True
    then show ?thesis using Cons [of n] by simp
  next
    case False
    have u: "[n ..< n + Suc k] = n # [Suc n ..< Suc n + k]" for k
      by (simp add: upt_conv_Cons)
    from False show ?thesis using Cons [of "Suc n"] u by simp
  qed
qed

subsection \<open>The variables found by \<open>getVariables\<close>\<close>

lemma foldl_invariant:
  assumes "P a" and "\<And>a x. P a \<Longrightarrow> P (f a x)"
  shows "P (foldl f a xs)"
  using assms(1) by (induction xs arbitrary: a) (auto intro: assms(2))

lemma incr_distinct: "distinct (map fst m) \<Longrightarrow> distinct (map fst (incr k m))"
proof (induction m)
  case Nil
  show ?case by simp
next
  case (Cons kv m)
  have s: "set (map fst (incr k m)) \<subseteq> insert k (set (map fst m))" for m
    by (induction k m rule: incr.induct) auto
  obtain k' v where kv: "kv = (k', v)" by (cases kv)
  show ?case
  proof (cases "k = k'")
    case True
    then show ?thesis using Cons.prems kv by simp
  next
    case False
    then show ?thesis using Cons kv s [of m] by auto
  qed
qed

lemma countVariables_distinct: "distinct (map fst (countVariables lines))"
  unfolding countVariables_def
  by (rule foldl_invariant, simp, rule foldl_invariant, assumption, rule incr_distinct)

lemma mapM_Inr: "mapM f xs = Inr ys \<Longrightarrow> list_all2 (\<lambda>x y. f x = Inr y) xs ys"
  by (induction xs arbitrary: ys) (auto split: sum.splits)

lemma list_all2_map_eq: "list_all2 (\<lambda>x y. f x = g y) xs ys \<Longrightarrow> map f xs = map g ys"
  by (induction rule: list_all2_induct) auto

lemma list_all2_right: "list_all2 P xs ys \<Longrightarrow> y \<in> set ys \<Longrightarrow> \<exists>x \<in> set xs. P x y"
  by (induction rule: list_all2_induct) auto

lemma mkVariable_Inr:
  assumes "mkVariable e kv = Inr p"
  shows "OriginalName p = fst kv"
    and "Reserved p \<Longrightarrow> ShortName p = OriginalName p"
    and "Reserved p \<Longrightarrow> OriginalName p \<in> reservedPSVariables e \<or> hd (OriginalName p) = CHR 0x60"
  using assms by (auto simp: mkVariable_def Let_def split: list.splits if_splits prod.splits)

lemma getVariables_Inr:
  assumes "rangeContract e" and "getVariables e lines = Inr p"
  shows "distinct (map OriginalName p)" and "\<forall>v \<in> set p. keepsName e v"
proof -
  let ?m = "mapRange e (countVariables lines)"
  from assms(2) have l: "list_all2 (\<lambda>kv v. mkVariable e kv = Inr v) ?m p"
    unfolding getVariables_def by (rule mapM_Inr)
  then have "list_all2 (\<lambda>kv v. fst kv = OriginalName v) ?m p"
    by (rule list_all2_mono) (simp add: mkVariable_Inr(1))
  then have n: "map fst ?m = map OriginalName p"
    by (rule list_all2_map_eq)
  from assms(1) have "mset ?m = mset (countVariables lines)"
    by (simp add: rangeContract_def)
  then have "mset (map fst ?m) = mset (map fst (countVariables lines))"
    by simp
  then have "distinct (map fst ?m) = distinct (map fst (countVariables lines))"
    by (rule mset_eq_imp_distinct_iff)
  then have "distinct (map fst ?m)"
    using countVariables_distinct by simp
  with n show "distinct (map OriginalName p)" by simp
  show "\<forall>v \<in> set p. keepsName e v"
  proof
    fix v assume "v \<in> set p"
    with l obtain kv where "mkVariable e kv = Inr v"
      using list_all2_right [of "\<lambda>kv v. mkVariable e kv = Inr v" ?m p v] by blast
    then show "keepsName e v"
      unfolding keepsName_def using mkVariable_Inr(2,3) by blast
  qed
qed

section \<open>Properties of the line joiner\<close>

lemma drop_length_minus_one: "l \<noteq> [] \<Longrightarrow> drop (length l - 1) l = [last l]"
proof -
  assume "l \<noteq> []"
  then have "l = butlast l @ [last l]" by simp
  then have "drop (length (butlast l)) l = [last l]"
    by (metis append_eq_conv_conj)
  then show ?thesis by simp
qed

lemma drop_length_minus_is_suffix:
  assumes "length s = n" and "n \<le> length l"
  shows "(drop (length l - n) l = s) = suffix s l"
proof
  assume "drop (length l - n) l = s"
  then show "suffix s l" by (metis suffix_drop)
next
  assume "suffix s l"
  then obtain zs where "l = zs @ s" by (auto simp: suffix_def)
  then show "drop (length l - n) l = s" using assms by simp
qed

lemma suffix_PARAM_last: "suffix ''PARAM'' l \<Longrightarrow> last l = CHR ''M''"
  by (auto simp: suffix_def)

text \<open>The joiner treats every line on its own: the output of a script is the
  concatenation of the outputs of its parts, in order.\<close>

lemma removeAllNewLines_append:
  "removeAllNewLines (pre @ post) = removeAllNewLines pre @ removeAllNewLines post"
  by (induction pre) (simp_all add: Let_def)

lemma removeAllNewLines_blank:
  "trimLine line = [] \<Longrightarrow> removeAllNewLines (pre @ line # post) = removeAllNewLines pre @ removeAllNewLines post"
  by (simp add: removeAllNewLines_append)

lemma removeAllNewLines_head:
  assumes "l = trimLine line" and "l \<noteq> []"
    and "\<not> (last l = CHR ''M'' \<and> length l \<ge> 5 \<and> \<not> suffix ''PARAM'' l)"
  shows "removeAllNewLines (line # lines) =
    (if last l \<in> {CHR ''}'', CHR ''{'', CHR ''('', CHR '';''} then l
     else if last l = CHR '']'' then l @ [CHR 0x0A]
     else if suffix ''PARAM'' l then l
     else l @ '';'') # removeAllNewLines lines"
proof -
  have e: "drop (length l - 1) l = [last l]"
    using assms(2) by (rule drop_length_minus_one)
  have p: "length l \<ge> 5 \<Longrightarrow> (drop (length l - 5) l = ''PARAM'') = suffix ''PARAM'' l"
    by (rule drop_length_minus_is_suffix) simp_all
  have q: "suffix ''PARAM'' l \<Longrightarrow> length l \<ge> 5"
    by (auto simp: suffix_def)
  have u: "removeAllNewLines (line # lines) =
     (if last l = CHR ''}'' \<or> last l = CHR ''{'' \<or> last l = CHR ''('' \<or> last l = CHR '';''
        then l # removeAllNewLines lines
      else if last l = CHR '']'' then (l @ [CHR 0x0A]) # removeAllNewLines lines
      else if last l = CHR ''M'' then
          (if length l \<ge> 5 then
             (if drop (length l - 5) l = ''PARAM'' then l # removeAllNewLines lines
              else l # removeAllNewLines lines)
           else (l @ '';'') # removeAllNewLines lines)
        else (l @ '';'') # removeAllNewLines lines)"
    using assms(1,2) e by (simp add: Let_def)
  show ?thesis
  proof (cases "last l = CHR ''M''")
    case True
    show ?thesis
    proof (cases "length l \<ge> 5")
      case True
      with \<open>last l = CHR ''M''\<close> assms(3) have "suffix ''PARAM'' l" by blast
      with True \<open>last l = CHR ''M''\<close> show ?thesis unfolding u by simp
    next
      case False
      with q have "\<not> suffix ''PARAM'' l" by blast
      with False \<open>last l = CHR ''M''\<close> show ?thesis unfolding u by simp
    qed
  next
    case False
    then have "\<not> suffix ''PARAM'' l"
      using suffix_PARAM_last by blast
    with False show ?thesis unfolding u by simp
  qed
qed

text \<open>
  C9, as the claim states it, fails: a line ending in a closing brace is emitted with
  nothing appended, and so is a line of five or more characters that ends in \<open>M\<close>
  without ending in \<open>PARAM\<close>.
\<close>

theorem removeAllNewLines_no_separator:
  "removeAllNewLines [''}''] = [''}'']
   \<and> removeAllNewLines [''X=ITEM''] = [''X=ITEM'']"
  by code_simp

text \<open>
  C9, amended.  Take any line of the script, at any position, and let \<open>l\<close> be the line
  after trimming.  If \<open>l\<close> is empty the line contributes nothing to the output and the
  lines before and after it are joined as they would be without it.  If \<open>l\<close> is not
  empty, and leaving aside the lines of five or more characters that end in \<open>M\<close>
  without ending in \<open>PARAM\<close>, the line contributes exactly one output line, between
  the output of the lines before it and the output of the lines after it: \<open>l\<close>
  unchanged when it ends in a closing brace, an opening brace, an opening parenthesis
  or a separator; \<open>l\<close> followed by a line break when it ends in a closing bracket; \<open>l\<close>
  unchanged when it ends in \<open>PARAM\<close>; and \<open>l\<close> followed by a separator in every other
  case.
\<close>

theorem removeAllNewLines_terminator:
  assumes "l = trimLine line"
    and "\<not> (last l = CHR ''M'' \<and> length l \<ge> 5 \<and> \<not> suffix ''PARAM'' l)"
  shows "removeAllNewLines (pre @ line # post) =
    removeAllNewLines pre @
    (if l = [] then []
     else [if last l \<in> {CHR ''}'', CHR ''{'', CHR ''('', CHR '';''} then l
           else if last l = CHR '']'' then l @ [CHR 0x0A]
           else if suffix ''PARAM'' l then l
           else l @ '';'']) @
    removeAllNewLines post"
proof (cases "l = []")
  case True
  with assms(1) show ?thesis
    using removeAllNewLines_blank [of line pre post] by simp
next
  case False
  have "removeAllNewLines (pre @ line # post) =
      removeAllNewLines pre @ removeAllNewLines (line # post)"
    by (rule removeAllNewLines_append)
  also have "removeAllNewLines (line # post) =
    (if last l \<in> {CHR ''}'', CHR ''{'', CHR ''('', CHR '';''} then l
     else if last l = CHR '']'' then l @ [CHR 0x0A]
     else if suffix ''PARAM'' l then l
     else l @ '';'') # removeAllNewLines post"
    using assms(1) False assms(2) by (rule removeAllNewLines_head)
  finally show ?thesis
    using False by simp
qed

theorem removeAllNewLines_terminator_witness:
  "removeAllNewLines ['' $X=1 '', [], ''HAM'', ''$A[0]'', ''PARAM'', ''IF($A){'', ''}''] =
     [''$X=1;'', ''HAM;'', ''$A[0]'' @ [CHR 0x0A], ''PARAM'', ''IF($A){'', ''}'']"
proof -
  note [simp del] = removeAllNewLines.simps(2)
  have t: "''$X=1'' = trimLine '' $X=1 ''" "[] = trimLine []" "''HAM'' = trimLine ''HAM''"
    "''$A[0]'' = trimLine ''$A[0]''" "''PARAM'' = trimLine ''PARAM''"
    "''IF($A){'' = trimLine ''IF($A){''" "''}'' = trimLine ''}''"
    by code_simp+
  have n: "\<not> suffix ''PARAM'' ''$X=1''" "\<not> suffix ''PARAM'' ''HAM''"
    by code_simp+
  have brace: "removeAllNewLines [''}''] = [''}'']"
    using removeAllNewLines_terminator [OF t(7), of "[]" "[]"] by simp
  have openBrace: "removeAllNewLines [''IF($A){'', ''}''] = [''IF($A){'', ''}'']"
    using removeAllNewLines_terminator [OF t(6), of "[]" "[''}'']"] brace by simp
  have paramLine: "removeAllNewLines [''PARAM'', ''IF($A){'', ''}''] = [''PARAM'', ''IF($A){'', ''}'']"
    using removeAllNewLines_terminator [OF t(5), of "[]" "[''IF($A){'', ''}'']"] openBrace by simp
  have bracket: "removeAllNewLines [''$A[0]'', ''PARAM'', ''IF($A){'', ''}''] =
      [''$A[0]'' @ [CHR 0x0A], ''PARAM'', ''IF($A){'', ''}'']"
    using removeAllNewLines_terminator [OF t(4), of "[]" "[''PARAM'', ''IF($A){'', ''}'']"] paramLine
    by simp
  have blank: "removeAllNewLines [[]] = []"
    using removeAllNewLines_terminator [OF t(2), of "[]" "[]"] by simp
  have first: "removeAllNewLines ['' $X=1 '', []] = [''$X=1;'']"
    using removeAllNewLines_terminator [OF t(1), of "[]" "[[]]"] blank n(1) by simp
  have "removeAllNewLines (['' $X=1 '', []] @ ''HAM'' # [''$A[0]'', ''PARAM'', ''IF($A){'', ''}'']) =
      [''$X=1;''] @ [''HAM;''] @ [''$A[0]'' @ [CHR 0x0A], ''PARAM'', ''IF($A){'', ''}'']"
    using removeAllNewLines_terminator [OF t(3), of "['' $X=1 '', []]"
        "[''$A[0]'', ''PARAM'', ''IF($A){'', ''}'']"] first bracket n(2)
    by simp
  then show ?thesis by simp
qed

subsection \<open>The aliases\<close>

lemma toUpperByte_hex:
  "toUpperByte (CHR ''0'') = CHR ''0''" "toUpperByte (CHR ''1'') = CHR ''1''"
    "toUpperByte (CHR ''2'') = CHR ''2''" "toUpperByte (CHR ''3'') = CHR ''3''"
    "toUpperByte (CHR ''4'') = CHR ''4''" "toUpperByte (CHR ''5'') = CHR ''5''"
    "toUpperByte (CHR ''6'') = CHR ''6''" "toUpperByte (CHR ''7'') = CHR ''7''"
    "toUpperByte (CHR ''8'') = CHR ''8''" "toUpperByte (CHR ''9'') = CHR ''9''"
    "toUpperByte (CHR ''a'') = CHR ''A''" "toUpperByte (CHR ''b'') = CHR ''B''"
    "toUpperByte (CHR ''c'') = CHR ''C''" "toUpperByte (CHR ''d'') = CHR ''D''"
    "toUpperByte (CHR ''e'') = CHR ''E''" "toUpperByte (CHR ''f'') = CHR ''F''"
    "toUpperByte (CHR ''-'') = CHR ''-''"
  by code_simp+

lemma toUpperByte_inj_hex: "inj_on toUpperByte (set ''0123456789abcdef-'')"
proof (rule inj_on_inverseI)
  fix c
  assume "c \<in> set ''0123456789abcdef-''"
  then show "(\<lambda>u. if u = CHR ''A'' then CHR ''a'' else if u = CHR ''B'' then CHR ''b''
        else if u = CHR ''C'' then CHR ''c'' else if u = CHR ''D'' then CHR ''d''
        else if u = CHR ''E'' then CHR ''e'' else if u = CHR ''F'' then CHR ''f'' else u)
      (toUpperByte c) = c"
    by (auto simp: toUpperByte_hex)
qed

lemma ToUpper_inj_uuid: "uuidForm s \<Longrightarrow> uuidForm t \<Longrightarrow> ToUpper s = ToUpper t \<Longrightarrow> s = t"
proof -
  assume s: "uuidForm s" and t: "uuidForm t" and eq: "ToUpper s = ToUpper t"
  from s t have "set s \<union> set t \<subseteq> set ''0123456789abcdef-''"
    by (simp add: uuidForm_def)
  then have "inj_on toUpperByte (set s \<union> set t)"
    by (rule inj_on_subset [OF toUpperByte_inj_hex])
  then show "s = t"
    using eq by (simp add: ToUpper_def inj_on_map_eq_map)
qed

lemma assignLoop_fields:
  assumes "assignLoop e i p = Inr p'"
  shows "map OriginalName p' = map OriginalName p"
    and "map ShortName p' = map ShortName p"
    and "map Reserved p' = map Reserved p"
    and "map Count p' = map Count p"
  using assms
  by (induction p arbitrary: i p') (auto split: option.splits sum.splits)

lemma assignLoop_aliases:
  assumes "assignLoop e i p = Inr p'"
  shows "list_all2 (\<lambda>k v. \<exists>s. uuidNewRandom e k = Some s \<and> UniqueName v = ''$~~'' @ ToUpper s)
           [i ..< i + length p] p'"
  using assms
proof (induction p arbitrary: i p')
  case Nil
  then show ?case by simp
next
  case (Cons v vs)
  from Cons.prems obtain s vs' where s: "uuidNewRandom e i = Some s"
    and r: "assignLoop e (i + 1) vs = Inr vs'"
    and p': "p' = v\<lparr>UniqueName := ''$~~'' @ ToUpper s\<rparr> # vs'"
    by (auto split: option.splits sum.splits)
  have "[i ..< i + Suc n] = i # [i + 1 ..< i + 1 + n]" for n
    by (simp add: upt_conv_Cons)
  then have u: "[i ..< i + length (v # vs)] = i # [i + 1 ..< i + 1 + length vs]"
    by simp
  from Cons.IH [OF r] s show ?case
    unfolding u p' by simp
qed

lemma assignLoop_distinct:
  assumes "uuidContract e" and "assignLoop e i p = Inr p'"
  shows "distinct (map UniqueName p')"
proof -
  let ?R = "\<lambda>k v. \<exists>s. uuidNewRandom e k = Some s \<and> UniqueName v = ''$~~'' @ ToUpper s"
  from assms(2) have l: "list_all2 ?R [i ..< i + length p] p'"
    by (rule assignLoop_aliases)
  have inj: "k = k'" if "?R k v" and "?R k' v'" and "UniqueName v = UniqueName v'"
    for k k' and v v' :: PSVariable
  proof -
    from that obtain s s' where s: "uuidNewRandom e k = Some s" "uuidNewRandom e k' = Some s'"
      and "ToUpper s = ToUpper s'"
      by auto
    moreover from s assms(1) have "uuidForm s" "uuidForm s'"
      by (auto simp: uuidContract_def)
    ultimately have "s = s'" by (simp add: ToUpper_inj_uuid)
    with s assms(1) show "k = k'"
      unfolding uuidContract_def by blast
  qed
  have "distinct (map UniqueName ys)" if "list_all2 ?R ks ys" and "distinct ks" for ks and ys :: "PSVariable list"
    using that
  proof (induction rule: list_all2_induct)
    case Nil
    show ?case by simp
  next
    case (Cons k ks y ys)
    have "UniqueName y \<notin> UniqueName ` set ys"
    proof
      assume "UniqueName y \<in> UniqueName ` set ys"
      then obtain y' where y': "y' \<in> set ys" "UniqueName y = UniqueName y'" by auto
      with Cons(2) obtain k' where k': "k' \<in> set ks" "?R k' y'"
        using list_all2_right [of ?R ks ys y'] by blast
      from inj [OF Cons(1) k'(2) y'(2)] k'(1) Cons.prems show False by simp
    qed
    with Cons show ?case by simp
  qed
  with l show ?thesis by simp
qed

subsection \<open>Permutations keep what matters\<close>

lemma mset_distinct_map: "mset xs = mset ys \<Longrightarrow> distinct (map f xs) = distinct (map f ys)"
proof -
  assume "mset xs = mset ys"
  then have "mset (map f xs) = mset (map f ys)" by simp
  then show ?thesis by (rule mset_eq_imp_distinct_iff)
qed

lemma distinct_map_split:
  assumes "distinct (map f (filter P xs))" and "distinct (map f (filter (\<lambda>x. \<not> P x) xs))"
    and "\<And>x y. x \<in> set xs \<Longrightarrow> y \<in> set xs \<Longrightarrow> P x \<Longrightarrow> \<not> P y \<Longrightarrow> f x \<noteq> f y"
  shows "distinct (map f xs)"
  using assms
proof (induction xs)
  case Nil
  show ?case by simp
next
  case (Cons x xs)
  have ih: "distinct (map f xs)"
    using Cons by (auto split: if_splits)
  have "f x \<notin> f ` set xs"
  proof
    assume "f x \<in> f ` set xs"
    then obtain y where y: "y \<in> set xs" "f x = f y" by auto
    show False
    proof (cases "P x")
      case True
      note Px = True
      show False
      proof (cases "P y")
        case True
        with Px y Cons.prems(1) show False by auto
      next
        case False
        with Px y Cons.prems(3) [of x y] show False by simp
      qed
    next
      case False
      note nPx = False
      show False
      proof (cases "P y")
        case True
        with nPx y Cons.prems(3) [of y x] show False by simp
      next
        case False
        with nPx y Cons.prems(2) show False by auto
      qed
    qed
  qed
  with ih show ?case by simp
qed

end
